theory Spec2Isabelle
  imports Main
begin

unbundle bit_operations_syntax

section \<open>The MIDI interface module of src/core/MidiInterface.cpp\<close>

text \<open>
  The module keeps a list of held notes, the sustain pedal, the gate, the sounding note and
  the pitch wheel. The C++ \<open>int\<close> and \<open>long\<close> values are modelled as \<open>int\<close>: the
  message handling only masks, shifts, compares and stores them, so nothing can overflow,
  and \<open>AND\<close> and \<open>drop_bit\<close> on \<open>int\<close> are the two's complement mask and the
  arithmetic right shift of the compiled code, for a \<open>long\<close> of any width. The floating
  point computation of the two output values in \<open>step\<close> is not part of this theory.
\<close>

record MidiInterface =
  "notes" :: "int list"
  pedal :: bool
  gate :: bool
  "note" :: int
  pitchWheel :: int

text \<open>The member initialisers of the struct: no note held, pedal up, gate closed, note 64,
  pitch wheel centred.\<close>

definition init :: MidiInterface where
  "init = \<lparr>notes = [], pedal = False, gate = False, note = 64, pitchWheel = 64\<rparr>"

text \<open>\<open>std::find\<close> followed by \<open>erase\<close> of the iterator when it is not \<open>end()\<close>: the
  first occurrence is removed, and a list without the value is left alone.\<close>

definition erase_found :: "int \<Rightarrow> int list \<Rightarrow> int list" where
  "erase_found n xs = (if n \<in> set xs then remove1 n xs else xs)"

definition pressNote :: "int \<Rightarrow> MidiInterface \<Rightarrow> MidiInterface" where
  "pressNote n s = s\<lparr>notes := erase_found n (notes s) @ [n], gate := True, note := n\<rparr>"

text \<open>\<open>releaseNote\<close> reads \<open>*--notes.end()\<close> only in the branch where the list is not
  empty, so \<open>last\<close> is never taken of the empty list.\<close>

definition releaseNote :: "int \<Rightarrow> MidiInterface \<Rightarrow> MidiInterface" where
  "releaseNote n s =
     (let s1 = s\<lparr>notes := erase_found n (notes s)\<rparr> in
      if pedal s1 then s1
      else if notes s1 \<noteq> [] then s1\<lparr>note := last (notes s1)\<rparr>
      else s1\<lparr>gate := False\<rparr>)"

text \<open>The four fields that \<open>processMidi\<close> cuts out of the message.\<close>

definition channel :: "int \<Rightarrow> int" where
  "channel msg = msg AND 0xf"

definition status :: "int \<Rightarrow> int" where
  "status msg = drop_bit 4 msg AND 0xf"

definition data1 :: "int \<Rightarrow> int" where
  "data1 msg = drop_bit 8 msg AND 0xff"

definition data2 :: "int \<Rightarrow> int" where
  "data2 msg = drop_bit 16 msg AND 0xff"

text \<open>\<open>processMidi\<close>: the early return on a foreign channel, then the two nested switches.
  The \<open>printf\<close> of the decoded fields writes to the standard output only and is left out.\<close>

definition processMidi :: "int \<Rightarrow> MidiInterface \<Rightarrow> MidiInterface" where
  "processMidi msg s =
     (if channel msg \<noteq> 0 then s
      else if status msg = 0x8 then releaseNote (data1 msg) s
      else if status msg = 0x9 then
        (if data2 msg \<noteq> 0 then pressNote (data1 msg) s else releaseNote (data1 msg) s)
      else if status msg = 0xb then
        (if data1 msg = 0x40 then releaseNote (- 1) (s\<lparr>pedal := (64 \<le> data2 msg)\<rparr>) else s)
      else if status msg = 0xe then s\<lparr>pitchWheel := data2 msg\<rparr>
      else s)"

text \<open>The states the module can be in: the initial one, and every state that
  \<open>processMidi\<close>, the only caller of \<open>pressNote\<close> and \<open>releaseNote\<close>, makes of one.\<close>

inductive reachable :: "MidiInterface \<Rightarrow> bool" where
  reachable_init: "reachable init"
| reachable_step: "reachable s \<Longrightarrow> reachable (processMidi msg s)"

text \<open>The loop of \<open>step\<close> that hands every pending event to \<open>processMidi\<close>, in the
  order \<open>Pm_Read\<close> delivers them.\<close>

primrec processAll :: "int list \<Rightarrow> MidiInterface \<Rightarrow> MidiInterface" where
  "processAll [] s = s"
| "processAll (msg # msgs) s = processAll msgs (processMidi msg s)"

text \<open>Sequences of direct calls of the two note operations.\<close>

datatype call = Press int | Release int

fun do_call :: "call \<Rightarrow> MidiInterface \<Rightarrow> MidiInterface" where
  "do_call (Press n) s = pressNote n s"
| "do_call (Release n) s = releaseNote n s"

primrec do_calls :: "call list \<Rightarrow> MidiInterface \<Rightarrow> MidiInterface" where
  "do_calls [] s = s"
| "do_calls (c # cs) s = do_calls cs (do_call c s)"

section \<open>Decoding\<close>

text \<open>The equations that evaluate the decoder and the note operations on concrete input.\<close>

lemmas decode_defs = channel_def status_def data1_def data2_def
lemmas note_defs = pressNote_def releaseNote_def erase_found_def init_def Let_def

lemma erase_found_remove1: "erase_found n xs = remove1 n xs"
  by (simp add: erase_found_def remove1_idem)

text \<open>
  C5. A message whose channel nibble is not 0 changes nothing: the note list, the pedal,
  the gate, the sounding note and the pitch wheel all keep their values.
\<close>

theorem processMidi_other_channel:
  "channel msg \<noteq> 0 \<Longrightarrow> processMidi msg s = s"
  by (simp add: processMidi_def)

theorem processMidi_other_channel_witness:
  "channel 0x7F3C91 \<noteq> 0 \<and>
   processMidi 0x7F3C91 (pressNote 64 init) = pressNote 64 init"
  using processMidi_other_channel [of "0x7F3C91" "pressNote 64 init"]
  by (simp add: channel_def)

section \<open>The note operations\<close>

lemma releaseNote_notes: "notes (releaseNote n s) = remove1 n (notes s)"
  by (simp add: releaseNote_def Let_def erase_found_remove1)

lemma pressNote_notes: "notes (pressNote n s) = remove1 n (notes s) @ [n]"
  by (simp add: pressNote_def erase_found_remove1)

lemma releaseNote_pedal_same: "pedal (releaseNote n s) = pedal s"
  by (simp add: releaseNote_def Let_def)

lemma data1_range: "0 \<le> data1 msg \<and> data1 msg \<le> 255"
  by (simp add: data1_def AND_upper2)

lemma data2_range: "0 \<le> data2 msg \<and> data2 msg \<le> 255"
  by (simp add: data2_def AND_upper2)

section \<open>Invariants of the reachable states\<close>

text \<open>While a note is held the gate is open.\<close>

lemma pressNote_gate_ok: "notes (pressNote n s) \<noteq> [] \<longrightarrow> gate (pressNote n s)"
  by (simp add: pressNote_def)

lemma releaseNote_gate_ok:
  assumes "notes s \<noteq> [] \<longrightarrow> gate s"
  shows "notes (releaseNote n s) \<noteq> [] \<longrightarrow> gate (releaseNote n s)"
proof
  assume ne: "notes (releaseNote n s) \<noteq> []"
  then have "notes s \<noteq> []"
    by (auto simp: releaseNote_notes)
  with assms have "gate s" by simp
  with ne show "gate (releaseNote n s)"
    by (auto simp: releaseNote_def Let_def split: if_splits)
qed

lemma processMidi_gate_ok:
  assumes "notes s \<noteq> [] \<longrightarrow> gate s"
  shows "notes (processMidi msg s) \<noteq> [] \<longrightarrow> gate (processMidi msg s)"
proof -
  have "notes (s\<lparr>pedal := p\<rparr>) \<noteq> [] \<longrightarrow> gate (s\<lparr>pedal := p\<rparr>)" for p
    using assms by simp
  then show ?thesis
    using assms releaseNote_gate_ok pressNote_gate_ok
    by (simp add: processMidi_def)
qed

lemma reachable_gate_ok: "reachable s \<Longrightarrow> notes s \<noteq> [] \<longrightarrow> gate s"
  by (induction rule: reachable.induct) (simp add: init_def, rule processMidi_gate_ok)

text \<open>Every held note is a decoded \<open>data1\<close> byte, so the sentinel \<open>- 1\<close> of the
  pedal handler is never held.\<close>

lemma processMidi_notes_subset:
  "set (notes (processMidi msg s)) \<subseteq> insert (data1 msg) (set (notes s))"
  by (auto simp: processMidi_def releaseNote_notes pressNote_notes dest: notin_set_remove1)

lemma reachable_notes_range: "reachable s \<Longrightarrow> \<forall>n\<in>set (notes s). 0 \<le> n \<and> n \<le> 255"
proof (induction rule: reachable.induct)
  case reachable_init
  show ?case by (simp add: init_def)
next
  case (reachable_step s msg)
  then show ?case
    using processMidi_notes_subset [of msg s] data1_range [of msg] by auto
qed

lemma reachable_no_sentinel: "reachable s \<Longrightarrow> - 1 \<notin> set (notes s)"
  using reachable_notes_range by fastforce

text \<open>With the pedal up, the sounding note is the last held one.\<close>

lemma pressNote_top: "note (pressNote n s) = last (notes (pressNote n s))"
  by (simp add: pressNote_def)

lemma releaseNote_top:
  "\<not> pedal s \<Longrightarrow> notes (releaseNote n s) \<noteq> [] \<Longrightarrow>
     note (releaseNote n s) = last (notes (releaseNote n s))"
  by (simp add: releaseNote_def Let_def split: if_splits)

lemma processMidi_top_ok:
  assumes "\<not> pedal s \<and> notes s \<noteq> [] \<longrightarrow> note s = last (notes s)"
  shows "\<not> pedal (processMidi msg s) \<and> notes (processMidi msg s) \<noteq> [] \<longrightarrow>
     note (processMidi msg s) = last (notes (processMidi msg s))"
  using assms
  by (auto simp: processMidi_def pressNote_top releaseNote_top releaseNote_pedal_same)

lemma reachable_top_ok:
  "reachable s \<Longrightarrow> \<not> pedal s \<and> notes s \<noteq> [] \<longrightarrow> note s = last (notes s)"
  by (induction rule: reachable.induct) (simp add: init_def, rule processMidi_top_ok)

text \<open>The reachable states are those that a finite sequence of messages leads to.\<close>

lemma reachable_processAll: "reachable s \<Longrightarrow> reachable (processAll msgs s)"
  by (induction msgs arbitrary: s) (simp_all add: reachable_step)

lemma processAll_append:
  "processAll (xs @ ys) s = processAll ys (processAll xs s)"
  by (induction xs arbitrary: s) simp_all

lemma reachable_iff_processAll: "reachable s \<longleftrightarrow> (\<exists>msgs. s = processAll msgs init)"
proof
  assume "reachable s"
  then show "\<exists>msgs. s = processAll msgs init"
  proof (induction rule: reachable.induct)
    case reachable_init
    have "init = processAll [] init" by simp
    then show ?case by blast
  next
    case (reachable_step s msg)
    then obtain msgs where s: "s = processAll msgs init" by blast
    have "processMidi msg s = processAll (msgs @ [msg]) init"
      by (simp add: s processAll_append)
    then show ?case by blast
  qed
next
  assume "\<exists>msgs. s = processAll msgs init"
  then show "reachable s"
    using reachable_processAll [OF reachable_init] by blast
qed

section \<open>Releasing a note\<close>

text \<open>
  C1. Last-note priority on release: when the pedal is not held and the note list is not
  empty after the released note has been removed, \<open>releaseNote\<close> makes the last
  (most recently pressed) remaining entry the sounding note and leaves the gate as it was,
  which in every reachable state is open. The witness is press 60, press 64, release 64:
  the sounding note goes from 64 back to 60 and the gate stays open.
\<close>

theorem releaseNote_last_note_priority:
  assumes "\<not> pedal s" and "notes (releaseNote n s) \<noteq> []"
  shows "notes (releaseNote n s) = remove1 n (notes s) \<and>
         note (releaseNote n s) = last (notes (releaseNote n s)) \<and>
         gate (releaseNote n s) = gate s \<and>
         (reachable s \<longrightarrow> gate (releaseNote n s))"
proof -
  have g: "gate (releaseNote n s) = gate s"
    using assms by (auto simp: releaseNote_def Let_def split: if_splits)
  have "notes s \<noteq> []"
    using assms(2) by (auto simp: releaseNote_notes)
  then have "reachable s \<longrightarrow> gate s"
    using reachable_gate_ok by blast
  with g show ?thesis
    using assms by (simp add: releaseNote_notes releaseNote_top)
qed

theorem releaseNote_last_note_priority_witness:
  "\<not> pedal (pressNote 64 (pressNote 60 init)) \<and>
   notes (releaseNote 64 (pressNote 64 (pressNote 60 init))) = [60] \<and>
   reachable (pressNote 64 (pressNote 60 init)) \<and>
   note (pressNote 64 (pressNote 60 init)) = 64 \<and>
   note (releaseNote 64 (pressNote 64 (pressNote 60 init))) = 60 \<and>
   gate (releaseNote 64 (pressNote 64 (pressNote 60 init)))"
proof -
  let ?s = "pressNote 64 (pressNote 60 init)"
  have "processMidi 0x7F4090 (processMidi 0x7F3C90 init) = ?s"
    by (simp add: processMidi_def decode_defs)
  then have r: "reachable ?s"
    using reachable_step [OF reachable_step [OF reachable_init]] by metis
  have p: "\<not> pedal ?s"
    by (simp add: note_defs)
  have n: "notes (releaseNote 64 ?s) = [60]"
    by (simp add: note_defs)
  have m: "note ?s = 64"
    by (simp add: note_defs)
  from n have ne: "notes (releaseNote 64 ?s) \<noteq> []" by simp
  show ?thesis
    using releaseNote_last_note_priority [OF p ne] r p n m by auto
qed

text \<open>
  C2. Sustain holds the sound: with the pedal held, \<open>releaseNote n\<close> removes \<open>n\<close> from
  the note list (if it is there) and changes nothing else, so the sounding note and the
  gate stay. The witness is press 60, pedal down, release 60: the list is empty, the gate
  still open and the sounding note still 60.
\<close>

theorem releaseNote_pedal_held:
  assumes "pedal s"
  shows "releaseNote n s = s\<lparr>notes := remove1 n (notes s)\<rparr> \<and>
         note (releaseNote n s) = note s \<and>
         gate (releaseNote n s) = gate s"
  using assms by (simp add: releaseNote_def Let_def erase_found_remove1)

theorem releaseNote_pedal_held_witness:
  "pedal (processAll [0x7F3C90, 0x7F40B0] init) \<and>
   notes (processAll [0x7F3C90, 0x7F40B0] init) = [60] \<and>
   notes (processAll [0x7F3C90, 0x7F40B0, 0x403C80] init) = [] \<and>
   gate (processAll [0x7F3C90, 0x7F40B0, 0x403C80] init) \<and>
   note (processAll [0x7F3C90, 0x7F40B0, 0x403C80] init) = 60"
proof -
  let ?s = "processAll [0x7F3C90, 0x7F40B0] init"
  have s: "?s = \<lparr>notes = [60], pedal = True, gate = True, note = 60, pitchWheel = 64\<rparr>"
    by (simp add: processMidi_def decode_defs note_defs)
  then have p: "pedal ?s" by simp
  have "processAll [0x7F3C90, 0x7F40B0, 0x403C80] init = releaseNote 60 ?s"
    by (simp add: processMidi_def decode_defs)
  then show ?thesis
    using releaseNote_pedal_held [OF p, of 60] s by simp
qed

section \<open>The sustain pedal\<close>

text \<open>
  C3. A control change of controller 0x40 on channel 0 sets the pedal to
  \<open>64 \<le> data2\<close> and then runs \<open>releaseNote\<close> with the sentinel \<open>- 1\<close>, which is in no
  reachable note list, so that no note is removed; with an empty note list a pedal-up
  (\<open>data2 < 64\<close>) closes the gate.
\<close>

theorem processMidi_sustain_pedal:
  assumes "channel msg = 0" and "status msg = 0xb" and "data1 msg = 0x40"
  shows "processMidi msg s = releaseNote (- 1) (s\<lparr>pedal := (64 \<le> data2 msg)\<rparr>) \<and>
         pedal (processMidi msg s) = (64 \<le> data2 msg) \<and>
         (reachable s \<longrightarrow> - 1 \<notin> set (notes s) \<and> notes (processMidi msg s) = notes s) \<and>
         (notes s = [] \<and> data2 msg < 64 \<longrightarrow> \<not> gate (processMidi msg s))"
proof -
  have eq: "processMidi msg s = releaseNote (- 1) (s\<lparr>pedal := (64 \<le> data2 msg)\<rparr>)"
    using assms by (simp add: processMidi_def)
  have "notes (processMidi msg s) = notes s" if "- 1 \<notin> set (notes s)"
    using that by (simp add: eq releaseNote_notes remove1_idem)
  moreover have "\<not> gate (processMidi msg s)" if "notes s = []" and "data2 msg < 64"
    using that by (simp add: eq releaseNote_def erase_found_def)
  ultimately show ?thesis
    using eq reachable_no_sentinel [of s] by (simp add: releaseNote_pedal_same)
qed

theorem processMidi_sustain_pedal_witness:
  "channel 0x0040B0 = 0 \<and> status 0x0040B0 = 0xb \<and> data1 0x0040B0 = 0x40 \<and>
   data2 0x0040B0 < 64 \<and>
   reachable (processAll [0x7F3C90, 0x7F40B0, 0x403C80] init) \<and>
   pedal (processAll [0x7F3C90, 0x7F40B0, 0x403C80] init) \<and>
   gate (processAll [0x7F3C90, 0x7F40B0, 0x403C80] init) \<and>
   notes (processAll [0x7F3C90, 0x7F40B0, 0x403C80] init) = [] \<and>
   \<not> pedal (processMidi 0x0040B0 (processAll [0x7F3C90, 0x7F40B0, 0x403C80] init)) \<and>
   \<not> gate (processMidi 0x0040B0 (processAll [0x7F3C90, 0x7F40B0, 0x403C80] init))"
proof -
  let ?s = "processAll [0x7F3C90, 0x7F40B0, 0x403C80] init"
  have s: "?s = \<lparr>notes = [], pedal = True, gate = True, note = 60, pitchWheel = 64\<rparr>"
    by (simp add: processMidi_def decode_defs note_defs)
  have r: "reachable ?s"
    by (rule reachable_processAll [OF reachable_init])
  have d: "channel 0x0040B0 = 0" "status 0x0040B0 = 0xb" "data1 0x0040B0 = 0x40"
    "data2 0x0040B0 < 64"
    by (simp_all add: decode_defs)
  have h: "pedal ?s \<and> gate ?s \<and> notes ?s = []"
    using s by simp
  have nd: "\<not> 64 \<le> data2 0x0040B0"
    by (simp add: decode_defs)
  note t = processMidi_sustain_pedal [OF d(1) d(2) d(3), of ?s]
  from t nd have up: "\<not> pedal (processMidi 0x0040B0 ?s)"
    by blast
  from t h d(4) have off: "\<not> gate (processMidi 0x0040B0 ?s)"
    by blast
  from d r h up off show ?thesis
    by blast
qed

section \<open>Note on with velocity 0\<close>

text \<open>
  C4. On channel 0, a note-on message (status 0x9) with \<open>data2 = 0\<close> leaves exactly the
  state that a note-off message (status 0x8) with the same \<open>data1\<close> leaves, from every
  state.
\<close>

theorem note_on_velocity_zero_is_note_off:
  assumes "channel m_on = 0" and "status m_on = 0x9" and "data2 m_on = 0"
    and "channel m_off = 0" and "status m_off = 0x8" and "data1 m_off = data1 m_on"
  shows "processMidi m_on s = processMidi m_off s"
  using assms by (simp add: processMidi_def)

theorem note_on_velocity_zero_is_note_off_witness:
  "channel 0x003C90 = 0 \<and> status 0x003C90 = 0x9 \<and> data2 0x003C90 = 0 \<and>
   channel 0x403C80 = 0 \<and> status 0x403C80 = 0x8 \<and> data1 0x403C80 = data1 0x003C90 \<and>
   processMidi 0x003C90 (pressNote 60 init) = processMidi 0x403C80 (pressNote 60 init)"
proof -
  have d: "channel 0x003C90 = 0" "status 0x003C90 = 0x9" "data2 0x003C90 = 0"
    "channel 0x403C80 = 0" "status 0x403C80 = 0x8" "data1 0x403C80 = data1 0x003C90"
    by (simp_all add: decode_defs)
  show ?thesis
    using note_on_velocity_zero_is_note_off [OF d, of "pressNote 60 init"] d by simp
qed

section \<open>The note list has no duplicates\<close>

lemma do_call_distinct: "distinct (notes s) \<Longrightarrow> distinct (notes (do_call c s))"
  by (cases c) (simp_all add: pressNote_notes releaseNote_notes)

lemma do_calls_distinct: "distinct (notes s) \<Longrightarrow> distinct (notes (do_calls cs s))"
  by (induction cs arbitrary: s) (simp_all add: do_call_distinct)

text \<open>
  C6. After any sequence of \<open>pressNote\<close> and \<open>releaseNote\<close> calls from the initial state
  the note list has no duplicates; and \<open>pressNote n\<close> of a note that is already held
  keeps the length of the list and moves \<open>n\<close> to its end, the most recent position.
\<close>

theorem note_stack_no_duplicates:
  "distinct (notes (do_calls cs init)) \<and>
   (notes t = [] \<longrightarrow> distinct (notes (do_calls cs t))) \<and>
   (n \<in> set (notes s) \<longrightarrow>
      length (notes (pressNote n s)) = length (notes s) \<and>
      notes (pressNote n s) = remove1 n (notes s) @ [n] \<and>
      last (notes (pressNote n s)) = n)"
proof -
  have "distinct (notes init)" by (simp add: init_def)
  then have "distinct (notes (do_calls cs init))" by (rule do_calls_distinct)
  moreover have "distinct (notes (do_calls cs t))" if "notes t = []"
    using that by (simp add: do_calls_distinct)
  moreover have "length (notes (pressNote n s)) = length (notes s)" if "n \<in> set (notes s)"
  proof -
    from that have "notes s \<noteq> []" by auto
    then have "0 < length (notes s)" by simp
    with that show ?thesis by (simp add: pressNote_notes length_remove1)
  qed
  ultimately show ?thesis by (simp add: pressNote_notes)
qed

theorem note_stack_no_duplicates_witness:
  "notes (do_calls [Press 60, Press 64, Press 60, Release 62] init) = [64, 60] \<and>
   distinct (notes (do_calls [Press 60, Press 64, Press 60, Release 62] init)) \<and>
   notes (init\<lparr>pedal := True\<rparr>) = [] \<and>
   distinct (notes (do_calls [Press 60, Press 64, Press 60, Release 62] (init\<lparr>pedal := True\<rparr>))) \<and>
   60 \<in> set (notes (pressNote 60 init)) \<and>
   length (notes (pressNote 60 init)) = 1 \<and>
   length (notes (pressNote 60 (pressNote 60 init))) = 1 \<and>
   last (notes (pressNote 60 (pressNote 60 init))) = 60"
proof -
  let ?cs = "[Press 60, Press 64, Press 60, Release 62]"
  have a: "notes (do_calls ?cs init) = [64, 60]"
    by (simp add: note_defs)
  have b: "notes (pressNote 60 init) = [60]"
    by (simp add: note_defs)
  have c: "notes (init\<lparr>pedal := True\<rparr>) = []"
    by (simp add: init_def)
  note t = note_stack_no_duplicates [of ?cs "init\<lparr>pedal := True\<rparr>" 60 "pressNote 60 init"]
  from t c have d: "distinct (notes (do_calls ?cs (init\<lparr>pedal := True\<rparr>)))"
    by blast
  from t have e: "distinct (notes (do_calls ?cs init))"
    by blast
  from b have f: "60 \<in> set (notes (pressNote 60 init))" "length (notes (pressNote 60 init)) = 1"
    by simp_all
  from t f have "length (notes (pressNote 60 (pressNote 60 init))) = 1 \<and>
      last (notes (pressNote 60 (pressNote 60 init))) = 60"
    by metis
  with a c d e f show ?thesis
    by blast
qed

section \<open>The gate and the sounding note in reachable states\<close>

text \<open>
  C9. In every state reached from the initial one by processing messages, a non-empty note
  list means an open gate: the gate is closed only when no note is held.
\<close>

theorem gate_open_while_notes_held:
  "reachable s \<Longrightarrow> notes s \<noteq> [] \<Longrightarrow> gate s"
  using reachable_gate_ok by blast

theorem gate_open_while_notes_held_witness:
  "reachable (processAll [0x7F3C90, 0x7F4090, 0x003C90] init) \<and>
   notes (processAll [0x7F3C90, 0x7F4090, 0x003C90] init) = [64] \<and>
   gate (processAll [0x7F3C90, 0x7F4090, 0x003C90] init)"
proof -
  let ?s = "processAll [0x7F3C90, 0x7F4090, 0x003C90] init"
  have r: "reachable ?s"
    by (rule reachable_processAll [OF reachable_init])
  have n: "notes ?s = [64]"
    by (simp add: processMidi_def decode_defs note_defs)
  then have ne: "notes ?s \<noteq> []"
    by simp
  from gate_open_while_notes_held [OF r ne] r n show ?thesis
    by blast
qed

text \<open>
  C10. In every reachable state with the pedal up and a non-empty note list, the sounding
  note is the last (most recently pressed) entry of the list. With the pedal held it can
  differ: after press 60, press 64, pedal down, release 64 the list is \<open>[60]\<close> and the
  sounding note 64. A pedal-up message restores the equality in whatever state it arrives.
\<close>

theorem note_is_last_held_note:
  "(reachable s \<and> \<not> pedal s \<and> notes s \<noteq> [] \<longrightarrow> note s = last (notes s)) \<and>
   (\<exists>t. reachable t \<and> pedal t \<and> notes t \<noteq> [] \<and> note t \<noteq> last (notes t)) \<and>
   (channel msg = 0 \<and> status msg = 0xb \<and> data1 msg = 0x40 \<and> data2 msg < 64 \<and>
    notes (processMidi msg u) \<noteq> [] \<longrightarrow>
      \<not> pedal (processMidi msg u) \<and>
      note (processMidi msg u) = last (notes (processMidi msg u)))"
proof -
  let ?t = "processAll [0x7F3C90, 0x7F4090, 0x7F40B0, 0x404080] init"
  have "?t = \<lparr>notes = [60], pedal = True, gate = True, note = 64, pitchWheel = 64\<rparr>"
    by (simp add: processMidi_def decode_defs note_defs)
  then have "pedal ?t \<and> notes ?t \<noteq> [] \<and> note ?t \<noteq> last (notes ?t)"
    by simp
  moreover have "reachable ?t"
    by (rule reachable_processAll [OF reachable_init])
  ultimately have ex: "\<exists>t. reachable t \<and> pedal t \<and> notes t \<noteq> [] \<and> note t \<noteq> last (notes t)"
    by blast
  have up: "\<not> pedal (processMidi msg u) \<and>
      note (processMidi msg u) = last (notes (processMidi msg u))"
    if "channel msg = 0" "status msg = 0xb" "data1 msg = 0x40" "data2 msg < 64"
      "notes (processMidi msg u) \<noteq> []"
  proof -
    have eq: "processMidi msg u = releaseNote (- 1) (u\<lparr>pedal := False\<rparr>)"
      using that by (simp add: processMidi_def)
    have "\<not> pedal (u\<lparr>pedal := False\<rparr>)" by simp
    then show ?thesis
      using that(5) unfolding eq by (simp add: releaseNote_top releaseNote_pedal_same)
  qed
  from ex up reachable_top_ok [of s] show ?thesis
    by blast
qed

theorem note_is_last_held_note_witness:
  "reachable (processAll [0x7F3C90, 0x7F4090, 0x7F40B0, 0x404080] init) \<and>
   pedal (processAll [0x7F3C90, 0x7F4090, 0x7F40B0, 0x404080] init) \<and>
   notes (processAll [0x7F3C90, 0x7F4090, 0x7F40B0, 0x404080] init) = [60] \<and>
   note (processAll [0x7F3C90, 0x7F4090, 0x7F40B0, 0x404080] init) = 64 \<and>
   channel 0x0040B0 = 0 \<and> status 0x0040B0 = 0xb \<and> data1 0x0040B0 = 0x40 \<and>
   data2 0x0040B0 < 64 \<and>
   reachable (processAll [0x7F3C90, 0x7F4090, 0x7F40B0, 0x404080, 0x0040B0] init) \<and>
   \<not> pedal (processAll [0x7F3C90, 0x7F4090, 0x7F40B0, 0x404080, 0x0040B0] init) \<and>
   notes (processAll [0x7F3C90, 0x7F4090, 0x7F40B0, 0x404080, 0x0040B0] init) = [60] \<and>
   note (processAll [0x7F3C90, 0x7F4090, 0x7F40B0, 0x404080, 0x0040B0] init) = 60"
proof -
  let ?t = "processAll [0x7F3C90, 0x7F4090, 0x7F40B0, 0x404080] init"
  let ?v = "processAll [0x7F3C90, 0x7F4090, 0x7F40B0, 0x404080, 0x0040B0] init"
  have t: "?t = \<lparr>notes = [60], pedal = True, gate = True, note = 64, pitchWheel = 64\<rparr>"
    by (simp add: processMidi_def decode_defs note_defs)
  have v: "?v = processMidi 0x0040B0 ?t"
    by simp
  have rt: "reachable ?t" and rv: "reachable ?v"
    by (rule reachable_processAll [OF reachable_init])+
  have d: "channel 0x0040B0 = 0" "status 0x0040B0 = 0xb" "data1 0x0040B0 = 0x40"
    "data2 0x0040B0 < 64"
    by (simp_all add: decode_defs)
  have nv: "notes ?v = [60]" and pv: "\<not> pedal ?v"
    by (simp_all add: processMidi_def decode_defs note_defs)
  have ft: "pedal ?t \<and> notes ?t = [60] \<and> note ?t = 64"
    using t by simp
  from nv have nev: "notes ?v \<noteq> []" and lv: "last (notes ?v) = 60"
    by simp_all
  from note_is_last_held_note [of ?v "0x0040B0" ?t] rv pv nev lv
  have "note ?v = 60"
    by metis
  with rt rv d nv pv ft show ?thesis
    by blast
qed

section \<open>The range of the held notes\<close>
lemma processMidi_notes_bound:
  assumes "\<forall>n\<in>set (notes s). 0 \<le> n \<and> n \<le> b" and "data1 m \<le> b"
  shows "\<forall>n\<in>set (notes (processMidi m s)). 0 \<le> n \<and> n \<le> b"
proof
  fix n
  assume "n \<in> set (notes (processMidi m s))"
  then consider "n = data1 m" | "n \<in> set (notes s)"
    using processMidi_notes_subset [of m s] by blast
  then show "0 \<le> n \<and> n \<le> b"
  proof cases
    case 1
    with assms(2) data1_range [of m] show ?thesis by simp
  next
    case 2
    with assms(1) show ?thesis by simp
  qed
qed

lemma processAll_notes_bound:
  assumes "\<forall>n\<in>set (notes s). 0 \<le> n \<and> n \<le> b"
    and "\<forall>m\<in>set msgs. data1 m \<le> b"
  shows "\<forall>n\<in>set (notes (processAll msgs s)). 0 \<le> n \<and> n \<le> b"
  using assms
proof (induction msgs arbitrary: s)
  case Nil
  then show ?case by simp
next
  case (Cons m msgs)
  from Cons.prems have "data1 m \<le> b"
    by simp
  with Cons.prems(1) have "\<forall>n\<in>set (notes (processMidi m s)). 0 \<le> n \<and> n \<le> b"
    by (rule processMidi_notes_bound)
  moreover from Cons.prems have "\<forall>m\<in>set msgs. data1 m \<le> b"
    by simp
  ultimately have "\<forall>n\<in>set (notes (processAll msgs (processMidi m s))). 0 \<le> n \<and> n \<le> b"
    by (rule Cons.IH)
  then show ?case
    by simp
qed

text \<open>
  C8 as stated does not hold. The decoder masks \<open>data1\<close> with 0xFF, so a note-on word whose second byte is 200 puts
  the note 200 on the list: the list is not confined to the range from 0 to 127.
\<close>

theorem note_stack_range_counterexample:
  "reachable (processMidi 0x7FC890 init) \<and>
   notes (processMidi 0x7FC890 init) = [200] \<and>
   \<not> (\<forall>n\<in>set (notes (processMidi 0x7FC890 init)). 0 \<le> n \<and> n \<le> 127)"
proof -
  have "notes (processMidi 0x7FC890 init) = [200]"
    by (simp add: processMidi_def decode_defs note_defs)
  then show ?thesis
    using reachable_step [OF reachable_init, of "0x7FC890"] by simp
qed

text \<open>
  C8, amended. After processing any sequence of words from the initial state, every entry
  of the note list is an integer from 0 to 255; it is from 0 to 127 when the \<open>data1\<close>
  byte of every processed word is at most 127.
\<close>

theorem note_stack_range:
  "(\<forall>n\<in>set (notes (processAll msgs init)). 0 \<le> n \<and> n \<le> 255) \<and>
   ((\<forall>m\<in>set msgs. data1 m \<le> 127) \<longrightarrow>
      (\<forall>n\<in>set (notes (processAll msgs init)). 0 \<le> n \<and> n \<le> 127))"
proof (rule conjI)
  have "\<forall>n\<in>set (notes init). 0 \<le> n \<and> n \<le> 255"
    by (simp add: init_def)
  moreover have "\<forall>m\<in>set msgs. data1 m \<le> 255"
    by (simp add: data1_range)
  ultimately show "\<forall>n\<in>set (notes (processAll msgs init)). 0 \<le> n \<and> n \<le> 255"
    by (rule processAll_notes_bound)
next
  show "(\<forall>m\<in>set msgs. data1 m \<le> 127) \<longrightarrow>
      (\<forall>n\<in>set (notes (processAll msgs init)). 0 \<le> n \<and> n \<le> 127)"
  proof
    assume "\<forall>m\<in>set msgs. data1 m \<le> 127"
    moreover have "\<forall>n\<in>set (notes init). 0 \<le> n \<and> n \<le> 127"
      by (simp add: init_def)
    ultimately show "\<forall>n\<in>set (notes (processAll msgs init)). 0 \<le> n \<and> n \<le> 127"
      by (rule processAll_notes_bound [rotated])
  qed
qed

theorem note_stack_range_witness:
  "data1 0x7F3C90 \<le> 127 \<and> data1 0x7F7F90 \<le> 127 \<and>
   notes (processAll [0x7F3C90, 0x7F7F90] init) = [60, 127] \<and>
   0 \<le> last (notes (processAll [0x7F3C90, 0x7F7F90] init)) \<and>
   last (notes (processAll [0x7F3C90, 0x7F7F90] init)) \<le> 127"
proof -
  let ?msgs = "[0x7F3C90, 0x7F7F90] :: int list"
  have d: "data1 0x7F3C90 \<le> 127" "data1 0x7F7F90 \<le> 127"
    by (simp_all add: decode_defs)
  then have h: "\<forall>m\<in>set ?msgs. data1 m \<le> 127"
    by simp
  have n: "notes (processAll ?msgs init) = [60, 127]"
    by (simp add: processMidi_def decode_defs note_defs)
  then have "last (notes (processAll ?msgs init)) \<in> set (notes (processAll ?msgs init))"
    by simp
  with note_stack_range [of ?msgs] h
  have "0 \<le> last (notes (processAll ?msgs init)) \<and> last (notes (processAll ?msgs init)) \<le> 127"
    by blast
  with d n show ?thesis
    by blast
qed

end
